theory Spec2Isabelle
  imports Complex_Main "HOL-Library.Word" "HOL-Library.Multiset"
begin

section \<open>Data model\<close>

subsection \<open>Declared kinds and runtime values\<close>

text \<open>
  The declared scalar kind of a field, \<^verbatim>\<open>descriptorpb.FieldDescriptorProto_Type\<close>, with all
  eighteen kinds of the protobuf descriptor language.
\<close>

datatype FieldDescriptorProto_Type =
    TYPE_DOUBLE | TYPE_FLOAT | TYPE_INT64 | TYPE_UINT64 | TYPE_INT32 | TYPE_FIXED64
  | TYPE_FIXED32 | TYPE_BOOL | TYPE_STRING | TYPE_GROUP | TYPE_MESSAGE | TYPE_BYTES
  | TYPE_UINT32 | TYPE_ENUM | TYPE_SFIXED32 | TYPE_SFIXED64 | TYPE_SINT32 | TYPE_SINT64

type_synonym int32 = "32 word"
type_synonym int64 = "64 word"
type_synonym uint32 = "32 word"
type_synonym uint64 = "64 word"

text \<open>
  Go's \<^verbatim>\<open>float64\<close>, as far as comparisons see it: not-a-number, the two infinities and the
  finite numbers (every binary64 number is a real; both zeros are the real 0, and they compare
  equal in Go as well). \<^verbatim>\<open>float32\<close> values are a subset and the conversion
  \<^verbatim>\<open>float64(x)\<close> is exact, so it is the identity here. Go's comparison operators follow
  IEEE 754: every ordered comparison with a NaN operand is false.
\<close>

datatype float64 = NaN | NegInf | Finite real | PosInf

fun float_lt :: "float64 \<Rightarrow> float64 \<Rightarrow> bool" where
  "float_lt (Finite a) (Finite b) = (a < b)"
| "float_lt NegInf (Finite b) = True"
| "float_lt NegInf PosInf = True"
| "float_lt (Finite a) PosInf = True"
| "float_lt _ _ = False"

fun float_le :: "float64 \<Rightarrow> float64 \<Rightarrow> bool" where
  "float_le (Finite a) (Finite b) = (a \<le> b)"
| "float_le NegInf (Finite b) = True"
| "float_le NegInf NegInf = True"
| "float_le NegInf PosInf = True"
| "float_le (Finite a) PosInf = True"
| "float_le PosInf PosInf = True"
| "float_le _ _ = False"

definition float_gt :: "float64 \<Rightarrow> float64 \<Rightarrow> bool" where
  "float_gt a b = float_lt b a"

definition float_ge :: "float64 \<Rightarrow> float64 \<Rightarrow> bool" where
  "float_ge a b = float_le b a"

text \<open>
  The rule bundle \<^verbatim>\<open>FieldValidator\<close> of validator.pb.go: every constraint is a pointer,
  nil when unset.
\<close>

record FieldValidator =
  Regex :: "string option"
  IntGt :: "int64 option"
  IntLt :: "int64 option"
  FloatGt :: "float64 option"
  FloatLt :: "float64 option"
  FloatEpsilon :: "float64 option"
  FloatGte :: "float64 option"
  FloatLte :: "float64 option"
  StringNotEmpty :: "bool option"
  RepeatedCountMin :: "int64 option"
  RepeatedCountMax :: "int64 option"
  LengthGt :: "int64 option"
  LengthLt :: "int64 option"
  LengthEq :: "int64 option"
  IsInEnum :: "bool option"

definition no_constraints :: FieldValidator where
  "no_constraints = \<lparr>Regex = None, IntGt = None, IntLt = None, FloatGt = None, FloatLt = None,
     FloatEpsilon = None, FloatGte = None, FloatLte = None, StringNotEmpty = None,
     RepeatedCountMin = None, RepeatedCountMax = None, LengthGt = None, LengthLt = None,
     LengthEq = None, IsInEnum = None\<rparr>"

text \<open>
  What \<^verbatim>\<open>proto.GetExtension(opt, E_Field)\<close> gives on a field's options: an error, or the
  extension value, which is a \<^verbatim>\<open>*FieldValidator\<close> or something of another type.
\<close>

datatype Extension = ExtFieldValidator FieldValidator | ExtOther

datatype FieldOptions = FieldOptions (GetExtension_E_Field: "string + Extension")

text \<open>
  \<^verbatim>\<open>desc.FieldDescriptor\<close>, with the accessors the validator calls. \<open>MapEntry\<close> holds the
  key and value descriptors of a map field, so \<^verbatim>\<open>IsMap\<close> is \<open>MapEntry fd \<noteq> None\<close>;
  \<open>GetEnumValues\<close> lists the numbers of \<^verbatim>\<open>GetEnumType().GetValues()\<close> in declaration order.
\<close>

datatype FieldDescriptor = FieldDescriptor
  (GetName: string)
  (GetType: FieldDescriptorProto_Type)
  (IsExtension: bool)
  (IsRepeated: bool)
  (MapEntry: "(FieldDescriptor \<times> FieldDescriptor) option")
  (GetFieldOptions: "FieldOptions option")
  (GetEnumValues: "int32 list")

definition IsMap :: "FieldDescriptor \<Rightarrow> bool" where
  "IsMap fd = (MapEntry fd \<noteq> None)"

text \<open>
  A Go \<^verbatim>\<open>interface{}\<close> value as the dynamic message library hands it out, and a
  \<^verbatim>\<open>*dynamic.Message\<close>. A message is the list \<^verbatim>\<open>GetKnownFields()\<close> returns, each
  descriptor paired with the outcome of \<^verbatim>\<open>TryGetField\<close> on it (\<open>Inl\<close> the error). The
  entries of a \<open>VMap\<close> are listed in the order in which the \<^verbatim>\<open>range\<close> statement
  yields them in the run being described: Go fixes no iteration order for a map, so two runs
  over one map are two lists with the same entries.
\<close>

datatype Value =
    VNil
  | VInt32 int32
  | VInt64 int64
  | VUint32 uint32
  | VUint64 uint64
  | VFloat32 float64
  | VFloat64 float64
  | VString string
  | VBytes "8 word list"
  | VBool bool
  | VMessage "Message option"
  | VList "Value list"
  | VMap "(Value \<times> Value) list"
and Message = Message (GetKnownFields: "(FieldDescriptor \<times> (string + Value)) list")

subsection \<open>Errors, panics and the runtime\<close>

record ValidError =
  field :: FieldDescriptor
  validKey :: string
  validValue :: Value
  fieldValue :: Value

definition ValidFail :: "FieldDescriptor \<Rightarrow> string \<Rightarrow> Value \<Rightarrow> Value \<Rightarrow> ValidError" where
  "ValidFail fd key vv fv = \<lparr>field = fd, validKey = key, validValue = vv, fieldValue = fv\<rparr>"

text \<open>
  How a call of one of the validator's methods ends: it panics (a failed type assertion), or
  it returns its \<^verbatim>\<open>error\<close>, nil or a \<^verbatim>\<open>*ValidError\<close>.
\<close>

datatype outcome = Panic | Return "ValidError option"

text \<open>
  A compiled \<^verbatim>\<open>*regexp.Regexp\<close> is its \<^verbatim>\<open>MatchString\<close>. The regular expression
  compiler and the rounding additions of float64 are Go's, not this repository's, and are
  taken as parameters.
\<close>

type_synonym Regexp = "string \<Rightarrow> bool"

record runtime =
  regexp_Compile :: "string \<Rightarrow> string + Regexp"
  float64_add :: "float64 \<Rightarrow> float64 \<Rightarrow> float64"
  float64_sub :: "float64 \<Rightarrow> float64 \<Rightarrow> float64"

section \<open>The pattern cache\<close>

type_synonym regCache = "string \<rightharpoonup> Regexp"

definition reset :: "regCache \<Rightarrow> regCache" where
  "reset r = Map.empty"

definition Get :: "runtime \<Rightarrow> regCache \<Rightarrow> string \<Rightarrow> (string + Regexp) \<times> regCache" where
  "Get rt r expr =
     (case r expr of
        Some re \<Rightarrow> (Inr re, r)
      | None \<Rightarrow>
          (case regexp_Compile rt expr of
             Inl err \<Rightarrow> (Inl err, r)
           | Inr re \<Rightarrow> (Inr re, r(expr \<mapsto> re))))"

section \<open>The rule accessor\<close>

definition getRule :: "FieldDescriptor \<Rightarrow> FieldValidator option" where
  "getRule fd =
     (case GetFieldOptions fd of
        None \<Rightarrow> None
      | Some opt \<Rightarrow>
          (case GetExtension_E_Field opt of
             Inl err \<Rightarrow> None
           | Inr ext \<Rightarrow> (case ext of ExtFieldValidator rule \<Rightarrow> Some rule | ExtOther \<Rightarrow> None)))"

section \<open>Typed checkers\<close>

definition checkRepeated ::
  "FieldDescriptor \<Rightarrow> Value list \<Rightarrow> FieldValidator option \<Rightarrow> ValidError option" where
  "checkRepeated fd vals rule =
     (case rule of
        None \<Rightarrow> None
      | Some rule \<Rightarrow>
          (let len = (of_nat (length vals) :: int64) in
           if RepeatedCountMin rule \<noteq> None \<and> \<not> (sint len \<ge> sint (the (RepeatedCountMin rule)))
           then Some (ValidFail fd ''RepeatedCountMin'' (VInt64 (the (RepeatedCountMin rule))) (VInt64 len))
           else if RepeatedCountMax rule \<noteq> None \<and> \<not> (sint len \<le> sint (the (RepeatedCountMax rule)))
           then Some (ValidFail fd ''RepeatedCountMax'' (VInt64 (the (RepeatedCountMax rule))) (VInt64 len))
           else None))"

definition checkInt ::
  "FieldDescriptor \<Rightarrow> int64 \<Rightarrow> FieldValidator option \<Rightarrow> ValidError option" where
  "checkInt fd val rule =
     (case rule of
        None \<Rightarrow> None
      | Some rule \<Rightarrow>
          (if IntGt rule \<noteq> None \<and> \<not> (sint val > sint (the (IntGt rule)))
           then Some (ValidFail fd ''IntGt'' (VInt64 (the (IntGt rule))) (VInt64 val))
           else if IntLt rule \<noteq> None \<and> \<not> (sint val < sint (the (IntLt rule)))
           then Some (ValidFail fd ''IntLt'' (VInt64 (the (IntLt rule))) (VInt64 val))
           else None))"

definition checkFloat ::
  "runtime \<Rightarrow> FieldDescriptor \<Rightarrow> float64 \<Rightarrow> FieldValidator option \<Rightarrow> ValidError option" where
  "checkFloat rt fd val rule =
     (case rule of
        None \<Rightarrow> None
      | Some rule \<Rightarrow>
          (let valueMax = (case FloatEpsilon rule of None \<Rightarrow> val | Some e \<Rightarrow> float64_add rt val e);
               valueMin = (case FloatEpsilon rule of None \<Rightarrow> val | Some e \<Rightarrow> float64_sub rt val e)
           in
           if FloatGt rule \<noteq> None \<and> \<not> float_gt valueMax (the (FloatGt rule))
           then Some (ValidFail fd ''FloatGt'' (VFloat64 (the (FloatGt rule))) (VFloat64 val))
           else if FloatLt rule \<noteq> None \<and> \<not> float_lt valueMin (the (FloatLt rule))
           then Some (ValidFail fd ''FloatLt'' (VFloat64 (the (FloatLt rule))) (VFloat64 val))
           else if FloatGte rule \<noteq> None \<and> \<not> float_ge valueMax (the (FloatGte rule))
           then Some (ValidFail fd ''FloatGte'' (VFloat64 (the (FloatGte rule))) (VFloat64 val))
           else if FloatLte rule \<noteq> None \<and> \<not> float_le valueMin (the (FloatLte rule))
           then Some (ValidFail fd ''FloatLte'' (VFloat64 (the (FloatLte rule))) (VFloat64 val))
           else None))"

definition checkString ::
  "runtime \<Rightarrow> regCache \<Rightarrow> FieldDescriptor \<Rightarrow> string \<Rightarrow> FieldValidator option
     \<Rightarrow> ValidError option \<times> regCache" where
  "checkString rt r fd val rule =
     (case rule of
        None \<Rightarrow> (None, r)
      | Some rule \<Rightarrow>
          (if StringNotEmpty rule \<noteq> None \<and> the (StringNotEmpty rule) \<and> val = []
           then (Some (ValidFail fd ''StringNotEmpty'' (VBool (the (StringNotEmpty rule))) (VString val)), r)
           else
             (let len = (of_nat (length val) :: int64) in
              if LengthGt rule \<noteq> None \<and> \<not> (sint len > sint (the (LengthGt rule)))
              then (Some (ValidFail fd ''LengthGt'' (VInt64 (the (LengthGt rule))) (VInt64 len)), r)
              else if LengthLt rule \<noteq> None \<and> \<not> (sint len < sint (the (LengthLt rule)))
              then (Some (ValidFail fd ''LengthLt'' (VInt64 (the (LengthLt rule))) (VInt64 len)), r)
              else if LengthEq rule \<noteq> None \<and> \<not> (len = the (LengthEq rule))
              then (Some (ValidFail fd ''LengthEq'' (VInt64 (the (LengthEq rule))) (VInt64 len)), r)
              else
                (case Regex rule of
                   None \<Rightarrow> (None, r)
                 | Some expr \<Rightarrow>
                     (case Get rt r expr of
                        (Inl err, r') \<Rightarrow> (None, r')
                      | (Inr re, r') \<Rightarrow>
                          (if \<not> re val
                           then (Some (ValidFail fd ''Regex'' (VString expr) (VString val)), r')
                           else (None, r')))))))"

definition checkBytes ::
  "FieldDescriptor \<Rightarrow> 8 word list \<Rightarrow> FieldValidator option \<Rightarrow> ValidError option" where
  "checkBytes fd val rule =
     (case rule of
        None \<Rightarrow> None
      | Some rule \<Rightarrow>
          (let len = (of_nat (length val) :: int64) in
           if LengthGt rule \<noteq> None \<and> \<not> (sint len > sint (the (LengthGt rule)))
           then Some (ValidFail fd ''LengthGt'' (VInt64 (the (LengthGt rule))) (VInt64 len))
           else if LengthLt rule \<noteq> None \<and> \<not> (sint len < sint (the (LengthLt rule)))
           then Some (ValidFail fd ''LengthLt'' (VInt64 (the (LengthLt rule))) (VInt64 len))
           else if LengthEq rule \<noteq> None \<and> \<not> (len = the (LengthEq rule))
           then Some (ValidFail fd ''LengthEq'' (VInt64 (the (LengthEq rule))) (VInt64 len))
           else None))"

text \<open>The loop of \<^verbatim>\<open>checkEnum\<close> over the declared values: does one of them equal the value?\<close>

fun checkEnum_loop :: "int32 \<Rightarrow> int32 list \<Rightarrow> bool" where
  "checkEnum_loop val [] = False"
| "checkEnum_loop val (item # items) = (if val = item then True else checkEnum_loop val items)"

definition checkEnum ::
  "FieldDescriptor \<Rightarrow> int32 \<Rightarrow> FieldValidator option \<Rightarrow> ValidError option" where
  "checkEnum fd val rule =
     (if rule = None \<or> IsInEnum (the rule) = None \<or> \<not> the (IsInEnum (the rule)) then None
      else if checkEnum_loop val (GetEnumValues fd) then None
      else Some (ValidFail fd ''IsInEnum'' (VBool (the (IsInEnum (the rule)))) (VBool False)))"

section \<open>The validation engine\<close>

text \<open>
  The methods of \<^verbatim>\<open>validator\<close> and \<^verbatim>\<open>ValidMsg\<close>, which call each other. Each takes the
  pattern cache and returns it with its result. A failed type assertion
  \<^verbatim>\<open>value.(T)\<close> of \<^verbatim>\<open>validField\<close> panics; the panic unwinds through the loops to the
  deferred \<^verbatim>\<open>recover\<close> of the nearest \<^verbatim>\<open>ValidMsg\<close>, which turns it into a nil error.
  The conversions to \<^verbatim>\<open>int64\<close> are Go's: sign extension from \<^verbatim>\<open>int32\<close>, zero extension
  from \<^verbatim>\<open>uint32\<close>, and the same 64 bits read as two's complement from \<^verbatim>\<open>uint64\<close>.
  \<^verbatim>\<open>GetMapKeyType\<close> and \<^verbatim>\<open>GetMapValueType\<close> are nil on a field that is no map, and
  \<^verbatim>\<open>validField\<close> on a nil descriptor returns nil for a nil value and panics otherwise.
\<close>

function
  ValidMsg :: "runtime \<Rightarrow> regCache \<Rightarrow> Message option \<Rightarrow> ValidError option \<times> regCache"
and Valid :: "runtime \<Rightarrow> regCache \<Rightarrow> Message option \<Rightarrow> outcome \<times> regCache"
and Valid_loop ::
  "runtime \<Rightarrow> regCache \<Rightarrow> (FieldDescriptor \<times> (string + Value)) list \<Rightarrow> outcome \<times> regCache"
and validRepeated ::
  "runtime \<Rightarrow> regCache \<Rightarrow> FieldDescriptor \<Rightarrow> Value \<Rightarrow> FieldValidator option
     \<Rightarrow> outcome \<times> regCache"
and validRepeated_loop ::
  "runtime \<Rightarrow> regCache \<Rightarrow> FieldDescriptor \<Rightarrow> Value list \<Rightarrow> FieldValidator option
     \<Rightarrow> outcome \<times> regCache"
and validMap ::
  "runtime \<Rightarrow> regCache \<Rightarrow> FieldDescriptor \<Rightarrow> Value \<Rightarrow> FieldValidator option
     \<Rightarrow> outcome \<times> regCache"
and validMap_loop ::
  "runtime \<Rightarrow> regCache \<Rightarrow> FieldDescriptor \<Rightarrow> (Value \<times> Value) list \<Rightarrow> FieldValidator option
     \<Rightarrow> outcome \<times> regCache"
and validField ::
  "runtime \<Rightarrow> regCache \<Rightarrow> FieldDescriptor \<Rightarrow> Value \<Rightarrow> FieldValidator option
     \<Rightarrow> outcome \<times> regCache"
and checkMessage ::
  "runtime \<Rightarrow> regCache \<Rightarrow> FieldDescriptor \<Rightarrow> Value \<Rightarrow> FieldValidator option
     \<Rightarrow> ValidError option \<times> regCache"
where
  "ValidMsg rt r msg =
     (case Valid rt r msg of
        (Panic, r') \<Rightarrow> (None, r')
      | (Return err, r') \<Rightarrow> (err, r'))"
| "Valid rt r msg =
     (case msg of
        None \<Rightarrow> (Return None, r)
      | Some (Message flds) \<Rightarrow> Valid_loop rt r flds)"
| "Valid_loop rt r [] = (Return None, r)"
| "Valid_loop rt r ((fd, got) # flds) =
     (if IsExtension fd then Valid_loop rt r flds
      else
        (case got of
           Inl err \<Rightarrow> Valid_loop rt r flds
         | Inr value \<Rightarrow>
             (let rule = getRule fd in
              if IsMap fd then
                (case validMap rt r fd value rule of
                   (Return None, r') \<Rightarrow> Valid_loop rt r' flds
                 | err2 \<Rightarrow> err2)
              else if IsRepeated fd then
                (case validRepeated rt r fd value rule of
                   (Return None, r') \<Rightarrow> Valid_loop rt r' flds
                 | err2 \<Rightarrow> err2)
              else
                (case validField rt r fd value rule of
                   (Return None, r') \<Rightarrow> Valid_loop rt r' flds
                 | err2 \<Rightarrow> err2))))"
| "validRepeated rt r fd value rule =
     (case value of
        VNil \<Rightarrow> (Return None, r)
      | VList vList \<Rightarrow>
          (case checkRepeated fd vList rule of
             Some err \<Rightarrow> (Return (Some err), r)
           | None \<Rightarrow> validRepeated_loop rt r fd vList rule)
      | _ \<Rightarrow> (Return None, r))"
| "validRepeated_loop rt r fd [] rule = (Return None, r)"
| "validRepeated_loop rt r fd (item # items) rule =
     (case validField rt r fd item rule of
        (Return None, r') \<Rightarrow> validRepeated_loop rt r' fd items rule
      | err \<Rightarrow> err)"
| "validMap rt r fd value rule =
     (case value of
        VNil \<Rightarrow> (Return None, r)
      | VMap vList \<Rightarrow> validMap_loop rt r fd vList rule
      | _ \<Rightarrow> (Return None, r))"
| "validMap_loop rt r fd [] rule = (Return None, r)"
| "validMap_loop rt r fd ((key, item) # entries) rule =
     (case MapEntry fd of
        None \<Rightarrow>
          (if key = VNil \<and> item = VNil then validMap_loop rt r fd entries rule else (Panic, r))
      | Some (GetMapKeyType, GetMapValueType) \<Rightarrow>
          (case validField rt r GetMapKeyType key rule of
             (Return None, r') \<Rightarrow>
               (case validField rt r' GetMapValueType item None of
                  (Return None, r'') \<Rightarrow> validMap_loop rt r'' fd entries rule
                | err \<Rightarrow> err)
           | err \<Rightarrow> err))"
| "validField rt r fd value rule =
     (if value = VNil then (Return None, r)
      else if GetType fd = TYPE_MESSAGE then
        (case checkMessage rt r fd value rule of (err, r') \<Rightarrow> (Return err, r'))
      else if GetType fd \<in> {TYPE_INT32, TYPE_SINT32, TYPE_SFIXED32} then
        (case value of VInt32 x \<Rightarrow> (Return (checkInt fd (scast x) rule), r) | _ \<Rightarrow> (Panic, r))
      else if GetType fd \<in> {TYPE_INT64, TYPE_SINT64, TYPE_SFIXED64} then
        (case value of VInt64 x \<Rightarrow> (Return (checkInt fd x rule), r) | _ \<Rightarrow> (Panic, r))
      else if GetType fd \<in> {TYPE_UINT32, TYPE_FIXED32} then
        (case value of VUint32 x \<Rightarrow> (Return (checkInt fd (ucast x) rule), r) | _ \<Rightarrow> (Panic, r))
      else if GetType fd \<in> {TYPE_UINT64, TYPE_FIXED64} then
        (case value of VUint64 x \<Rightarrow> (Return (checkInt fd x rule), r) | _ \<Rightarrow> (Panic, r))
      else if GetType fd = TYPE_FLOAT then
        (case value of VFloat32 x \<Rightarrow> (Return (checkFloat rt fd x rule), r) | _ \<Rightarrow> (Panic, r))
      else if GetType fd = TYPE_DOUBLE then
        (case value of VFloat64 x \<Rightarrow> (Return (checkFloat rt fd x rule), r) | _ \<Rightarrow> (Panic, r))
      else if GetType fd = TYPE_STRING then
        (case value of
           VString x \<Rightarrow> (case checkString rt r fd x rule of (err, r') \<Rightarrow> (Return err, r'))
         | _ \<Rightarrow> (Panic, r))
      else if GetType fd = TYPE_BYTES then
        (case value of VBytes x \<Rightarrow> (Return (checkBytes fd x rule), r) | _ \<Rightarrow> (Panic, r))
      else if GetType fd = TYPE_ENUM then
        (case value of VInt32 x \<Rightarrow> (Return (checkEnum fd x rule), r) | _ \<Rightarrow> (Panic, r))
      else (Return None, r))"
| "checkMessage rt r fd value rule =
     (case value of
        VMessage subMsg \<Rightarrow> ValidMsg rt r subMsg
      | _ \<Rightarrow> (None, r))"
  by pat_completeness auto

termination
  by (relation "measure (\<lambda>call. case call of
      Inl (Inl (Inl (rt, r, msg))) \<Rightarrow> 2 * size_option size msg + 1
    | Inl (Inl (Inr (rt, r, msg))) \<Rightarrow> 2 * size_option size msg
    | Inl (Inr (Inl (rt, r, flds))) \<Rightarrow>
        2 * size_list (size_prod (\<lambda>fd. 0) (size_sum (\<lambda>err. 0) size)) flds
    | Inl (Inr (Inr (rt, r, fd, value, rule))) \<Rightarrow> 2 * size value
    | Inr (Inl (Inl (rt, r, fd, items, rule))) \<Rightarrow> 2 * size_list size items
    | Inr (Inl (Inr (rt, r, fd, value, rule))) \<Rightarrow> 2 * size value
    | Inr (Inr (Inl (rt, r, fd, entries, rule))) \<Rightarrow> 2 * size_list (size_prod size size) entries
    | Inr (Inr (Inr (Inl (rt, r, fd, value, rule)))) \<Rightarrow> 2 * size value + 1
    | Inr (Inr (Inr (Inr (rt, r, fd, value, rule)))) \<Rightarrow> 2 * size value)")
    auto

section \<open>Notions the properties are stated with\<close>

text \<open>A call fails on a field when it returns a \<^verbatim>\<open>*ValidError\<close>.\<close>

definition is_violation :: "outcome \<times> regCache \<Rightarrow> bool" where
  "is_violation res = (case fst res of Panic \<Rightarrow> False | Return None \<Rightarrow> False | Return (Some err) \<Rightarrow> True)"

text \<open>
  The invariant of the package-level cache \<^verbatim>\<open>r\<close>: whatever it holds for a pattern is what
  compiling the pattern gives. It holds of the empty cache, and \<^verbatim>\<open>Get\<close>, the only writer,
  keeps it.
\<close>

definition cache_ok :: "runtime \<Rightarrow> regCache \<Rightarrow> bool" where
  "cache_ok rt r = (\<forall>expr re. r expr = Some re \<longrightarrow> regexp_Compile rt expr = Inr re)"

text \<open>
  The first outcome of a list of checks that is not a plain pass: what a loop that returns at
  the first error (or unwinds at the first panic) yields.
\<close>

fun first_failure :: "outcome list \<Rightarrow> outcome" where
  "first_failure [] = Return None"
| "first_failure (res # rest) = (if res = Return None then first_failure rest else res)"








section \<open>Example runtime, schemas and messages\<close>

text \<open>
  The concrete inputs of the examples. \<open>sample_Compile\<close> stands for \<^verbatim>\<open>regexp.Compile\<close> on
  the patterns the examples use: it compiles \<^verbatim>\<open>^a+$\<close> to the matcher of the non-empty
  strings of a's, as Go does, and rejects every other pattern, among them \<^verbatim>\<open>(\<close>, which Go
  rejects as well (missing closing parenthesis). \<open>sample_add\<close> and \<open>sample_sub\<close> are exact on
  finite operands, which is float64 arithmetic wherever the exact result is a float64, as
  for the quarters and halves the examples use.
\<close>

definition sample_Compile :: "string \<Rightarrow> string + Regexp" where
  "sample_Compile expr =
     (if expr = ''^a+$'' then Inr (\<lambda>s. s \<noteq> [] \<and> list_all (\<lambda>c. c = CHR ''a'') s)
      else Inl ''error parsing regexp'')"

fun sample_add :: "float64 \<Rightarrow> float64 \<Rightarrow> float64" where
  "sample_add (Finite a) (Finite b) = Finite (a + b)"
| "sample_add NaN b = NaN"
| "sample_add a NaN = NaN"
| "sample_add PosInf NegInf = NaN"
| "sample_add NegInf PosInf = NaN"
| "sample_add PosInf b = PosInf"
| "sample_add a PosInf = PosInf"
| "sample_add NegInf b = NegInf"
| "sample_add a NegInf = NegInf"

fun float_neg :: "float64 \<Rightarrow> float64" where
  "float_neg NaN = NaN"
| "float_neg NegInf = PosInf"
| "float_neg (Finite a) = Finite (- a)"
| "float_neg PosInf = NegInf"

definition sample_sub :: "float64 \<Rightarrow> float64 \<Rightarrow> float64" where
  "sample_sub a b = sample_add a (float_neg b)"

definition sample_runtime :: runtime where
  "sample_runtime =
     \<lparr>regexp_Compile = sample_Compile, float64_add = sample_add, float64_sub = sample_sub\<rparr>"

text \<open>A singular field of a scalar kind, and the options that attach a rule to a field.\<close>

definition singular :: "string \<Rightarrow> FieldDescriptorProto_Type \<Rightarrow> FieldOptions option \<Rightarrow> FieldDescriptor" where
  "singular name kind opts = FieldDescriptor name kind False False None opts []"

definition with_rule :: "FieldValidator \<Rightarrow> FieldOptions option" where
  "with_rule rule = Some (FieldOptions (Inr (ExtFieldValidator rule)))"






text \<open>A uint64 counter that must be positive.\<close>

definition c2_counter :: FieldDescriptor where
  "c2_counter = singular ''counter'' TYPE_UINT64 (with_rule (no_constraints\<lparr>IntGt := Some 0\<rparr>))"

text \<open>
  A map from string keys to string values whose rule wants keys shorter than three bytes, and
  two ways of ranging over the same two entries.
\<close>

definition c3_key :: FieldDescriptor where
  "c3_key = singular ''key'' TYPE_STRING None"

definition c3_val :: FieldDescriptor where
  "c3_val = singular ''value'' TYPE_STRING None"

definition c3_labels :: FieldDescriptor where
  "c3_labels = FieldDescriptor ''labels'' TYPE_MESSAGE False True (Some (c3_key, c3_val))
     (with_rule (no_constraints\<lparr>LengthLt := Some 3\<rparr>)) []"





text \<open>A repeated string field: between one and three tags, each shorter than four bytes.\<close>

definition c4_rule :: FieldValidator where
  "c4_rule = no_constraints\<lparr>RepeatedCountMin := Some 1, RepeatedCountMax := Some 3, LengthLt := Some 4\<rparr>"

definition c4_tags :: FieldDescriptor where
  "c4_tags = FieldDescriptor ''tags'' TYPE_STRING False True None (with_rule c4_rule) []"








text \<open>
  A name whose rule has a pattern that does not compile, next to two other constraints, in a
  message whose second field breaks its rule.
\<close>

definition c8_rule :: FieldValidator where
  "c8_rule = no_constraints\<lparr>Regex := Some ''('', StringNotEmpty := Some True, LengthLt := Some 50\<rparr>"

definition c8_name :: FieldDescriptor where
  "c8_name = singular ''name'' TYPE_STRING (with_rule c8_rule)"

definition c8_age :: FieldDescriptor where
  "c8_age = singular ''age'' TYPE_INT32 (with_rule (no_constraints\<lparr>IntGt := Some 0\<rparr>))"

definition c8_msg :: Message where
  "c8_msg = Message [(c8_name, Inr (VString ''Ada'')), (c8_age, Inr (VInt32 0))]"


text \<open>A bool field that carries a rule.\<close>

definition c10_flag :: FieldDescriptor where
  "c10_flag = singular ''flag'' TYPE_BOOL (with_rule (no_constraints\<lparr>IntGt := Some 5\<rparr>))"

section \<open>General facts\<close>

subsection \<open>The engine's equations, with results taken apart by projections\<close>

lemmas engine_induct =
  ValidMsg_Valid_Valid_loop_validRepeated_validRepeated_loop_validMap_validMap_loop_validField_checkMessage.induct

declare ValidMsg.simps [simp del] Valid.simps [simp del] Valid_loop.simps(2) [simp del]
  validRepeated.simps [simp del] validRepeated_loop.simps(2) [simp del]
  validMap.simps [simp del] validMap_loop.simps(2) [simp del] validField.simps [simp del]
  checkMessage.simps [simp del]

lemma continue_if:
  "(case res of (Return None, r') \<Rightarrow> k r' | err \<Rightarrow> err) =
     (if fst res = Return None then k (snd res) else res)"
  by (cases res) (auto split: outcome.splits option.splits)

lemma recover_eq:
  "(case res of (Panic, r') \<Rightarrow> (None, r') | (Return err, r') \<Rightarrow> (err, r')) =
     ((case fst res of Panic \<Rightarrow> None | Return err \<Rightarrow> err), snd res)"
  by (cases res) (auto split: outcome.splits)

lemma wrap_eq: "(case res of (err, r') \<Rightarrow> (Return err, r')) = (Return (fst res), snd res)"
  by (cases res) simp

lemmas ValidMsg_eq = ValidMsg.simps [unfolded recover_eq]
lemmas Valid_loop_Cons = Valid_loop.simps(2) [unfolded continue_if]
lemmas validRepeated_loop_Cons = validRepeated_loop.simps(2) [unfolded continue_if]
lemmas validMap_loop_Cons = validMap_loop.simps(2) [unfolded continue_if]
lemmas validField_eq = validField.simps [unfolded wrap_eq]


lemma Get_cache_ok: "cache_ok rt r \<Longrightarrow> cache_ok rt (snd (Get rt r expr))"
  by (auto simp: cache_ok_def Get_def split: option.splits sum.splits)

lemma Get_result: "cache_ok rt r \<Longrightarrow> fst (Get rt r expr) = regexp_Compile rt expr"
  by (auto simp: cache_ok_def Get_def split: option.splits sum.splits)

lemma regex_step:
  "(case Get rt r expr of (Inl err, r') \<Rightarrow> (None, r')
    | (Inr re, r') \<Rightarrow> (if \<not> re s then (Some e, r') else (None, r'))) =
   ((case fst (Get rt r expr) of Inl err \<Rightarrow> None | Inr re \<Rightarrow> (if \<not> re s then Some e else None)),
    snd (Get rt r expr))"
  by (cases "Get rt r expr") (auto split: sum.splits)

lemmas checkString_eq = checkString_def [unfolded regex_step]

lemma checkString_cache_ok: "cache_ok rt r \<Longrightarrow> cache_ok rt (snd (checkString rt r fd s rule))"
  by (simp add: checkString_eq Let_def Get_cache_ok split: option.splits)

lemma checkString_indep:
  "cache_ok rt r \<Longrightarrow> cache_ok rt r2 \<Longrightarrow>
     fst (checkString rt r2 fd s rule) = fst (checkString rt r fd s rule)"
  by (simp add: checkString_eq Let_def if_distrib[of fst] option.case_distrib[of fst] Get_result
      cong: if_cong option.case_cong)

lemma cache_ok_preserved:
  shows "cache_ok rt r \<Longrightarrow> cache_ok rt (snd (ValidMsg rt r msg))"
    and "cache_ok rt r \<Longrightarrow> cache_ok rt (snd (Valid rt r msg))"
    and "cache_ok rt r \<Longrightarrow> cache_ok rt (snd (Valid_loop rt r flds))"
    and "cache_ok rt r \<Longrightarrow> cache_ok rt (snd (validRepeated rt r fd v rule))"
    and "cache_ok rt r \<Longrightarrow> cache_ok rt (snd (validRepeated_loop rt r fd items rule))"
    and "cache_ok rt r \<Longrightarrow> cache_ok rt (snd (validMap rt r fd v rule))"
    and "cache_ok rt r \<Longrightarrow> cache_ok rt (snd (validMap_loop rt r fd entries rule))"
    and "cache_ok rt r \<Longrightarrow> cache_ok rt (snd (validField rt r fd v rule))"
    and "cache_ok rt r \<Longrightarrow> cache_ok rt (snd (checkMessage rt r fd v rule))"
proof (induct rt r msg and rt r msg and rt r flds and rt r fd v rule and rt r fd items rule
    and rt r fd v rule and rt r fd entries rule and rt r fd v rule and rt r fd v rule
    rule: engine_induct)
  case (1 rt r msg)
  then show ?case by (simp add: ValidMsg_eq)
next
  case (2 rt r msg)
  then show ?case by (simp add: Valid.simps split: option.splits Message.splits)
next
  case (3 rt r)
  then show ?case by simp
next
  case (4 rt r fd got flds)
  note ih = "4.hyps"
  show ?case
  proof (cases "IsExtension fd")
    case True
    with ih(1) "4.prems" show ?thesis by (simp add: Valid_loop_Cons)
  next
    case ext: False
    show ?thesis
    proof (cases got)
      case (Inl a)
      with ext ih(2) "4.prems" show ?thesis by (simp add: Valid_loop_Cons)
    next
      case (Inr b)
      note m1 = ih(3)[OF ext Inr refl]
      note m2 = ih(4)[OF ext Inr refl _ prod.collapse _ refl]
      note r1 = ih(5)[OF ext Inr refl]
      note r2 = ih(6)[OF ext Inr refl _ _ prod.collapse _ refl]
      note f1 = ih(7)[OF ext Inr refl]
      note f2 = ih(8)[OF ext Inr refl _ _ prod.collapse _ refl]
      from ext Inr "4.prems" m1 m2 r1 r2 f1 f2 show ?thesis
        by (simp add: Valid_loop_Cons Let_def)
    qed
  qed
next
  case (5 rt r fd v rule)
  then show ?case by (simp add: validRepeated.simps split: Value.splits option.splits)
next
  case (6 rt r fd rule)
  then show ?case by simp
next
  case (7 rt r fd item items rule)
  note a = "7.hyps"(1) and b = "7.hyps"(2)[OF prod.collapse _ refl]
  from a b "7.prems" show ?case by (simp add: validRepeated_loop_Cons)
next
  case (8 rt r fd v rule)
  then show ?case by (simp add: validMap.simps split: Value.splits)
next
  case (9 rt r fd rule)
  then show ?case by simp
next
  case (10 rt r fd key item entries rule)
  show ?case
  proof (cases "MapEntry fd")
    case None
    with "10.hyps"(1) "10.prems" show ?thesis by (simp add: validMap_loop_Cons)
  next
    case (Some kv)
    obtain kt vt where kv: "kv = (kt, vt)" by (cases kv)
    note a = "10.hyps"(2)[OF Some kv[symmetric]]
    note b = "10.hyps"(3)[OF Some kv[symmetric] prod.collapse _ refl]
    note c = "10.hyps"(4)[OF Some kv[symmetric] prod.collapse _ refl prod.collapse _ refl]
    from Some kv a b c "10.prems" show ?thesis by (simp add: validMap_loop_Cons)
  qed
next
  case (11 rt r fd v rule)
  then show ?case
    by (simp add: validField_eq checkString_cache_ok split: Value.splits)
next
  case (12 rt r fd v rule)
  then show ?case by (simp add: checkMessage.simps split: Value.splits)
qed


lemma cache_indep:
  shows "cache_ok rt r \<Longrightarrow> cache_ok rt r2 \<Longrightarrow> fst (ValidMsg rt r2 msg) = fst (ValidMsg rt r msg)"
    and "cache_ok rt r \<Longrightarrow> cache_ok rt r2 \<Longrightarrow> fst (Valid rt r2 msg) = fst (Valid rt r msg)"
    and "cache_ok rt r \<Longrightarrow> cache_ok rt r2 \<Longrightarrow> fst (Valid_loop rt r2 flds) = fst (Valid_loop rt r flds)"
    and "cache_ok rt r \<Longrightarrow> cache_ok rt r2 \<Longrightarrow>
           fst (validRepeated rt r2 fd v rule) = fst (validRepeated rt r fd v rule)"
    and "cache_ok rt r \<Longrightarrow> cache_ok rt r2 \<Longrightarrow>
           fst (validRepeated_loop rt r2 fd items rule) = fst (validRepeated_loop rt r fd items rule)"
    and "cache_ok rt r \<Longrightarrow> cache_ok rt r2 \<Longrightarrow>
           fst (validMap rt r2 fd v rule) = fst (validMap rt r fd v rule)"
    and "cache_ok rt r \<Longrightarrow> cache_ok rt r2 \<Longrightarrow>
           fst (validMap_loop rt r2 fd entries rule) = fst (validMap_loop rt r fd entries rule)"
    and "cache_ok rt r \<Longrightarrow> cache_ok rt r2 \<Longrightarrow>
           fst (validField rt r2 fd v rule) = fst (validField rt r fd v rule)"
    and "cache_ok rt r \<Longrightarrow> cache_ok rt r2 \<Longrightarrow>
           fst (checkMessage rt r2 fd v rule) = fst (checkMessage rt r fd v rule)"
proof (induct rt r msg and rt r msg and rt r flds and rt r fd v rule and rt r fd items rule
    and rt r fd v rule and rt r fd entries rule and rt r fd v rule and rt r fd v rule
    arbitrary: r2 and r2 and r2 and r2 and r2 and r2 and r2 and r2 and r2
    rule: engine_induct)
  case (1 rt r msg)
  from "1.hyps"[OF "1.prems"] show ?case by (simp add: ValidMsg_eq)
next
  case (2 rt r msg)
  show ?case
  proof (cases msg)
    case None
    then show ?thesis by (simp add: Valid.simps)
  next
    case (Some m)
    obtain flds where m: "m = Message flds" by (cases m)
    from "2.hyps"[OF Some m "2.prems"] Some m show ?thesis by (simp add: Valid.simps)
  qed
next
  case (3 rt r)
  then show ?case by simp
next
  case (4 rt r fd got flds)
  note ih = "4.hyps" and ok = "4.prems"
  show ?case
  proof (cases "IsExtension fd")
    case True
    with ih(1)[OF _ ok(1) ok(2)] show ?thesis by (simp add: Valid_loop_Cons)
  next
    case ext: False
    show ?thesis
    proof (cases got)
      case (Inl a)
      with ext ih(2)[OF _ _ ok(1) ok(2)] show ?thesis by (simp add: Valid_loop_Cons)
    next
      case (Inr b)
      let ?rule = "getRule fd"
      note pM = cache_ok_preserved(6) and pR = cache_ok_preserved(4) and pF = cache_ok_preserved(8)
      note m1 = ih(3)[OF ext Inr refl _ ok(1) ok(2)]
      note m2 = ih(4)[OF ext Inr refl _ prod.collapse _ refl pM[OF ok(1)]
          pM[OF ok(2), of fd b ?rule]]
      note r1 = ih(5)[OF ext Inr refl _ _ ok(1) ok(2)]
      note r2 = ih(6)[OF ext Inr refl _ _ prod.collapse _ refl pR[OF ok(1)]
          pR[OF ok(2), of fd b ?rule]]
      note f1 = ih(7)[OF ext Inr refl _ _ ok(1) ok(2)]
      note f2 = ih(8)[OF ext Inr refl _ _ prod.collapse _ refl pF[OF ok(1)]
          pF[OF ok(2), of fd b ?rule]]
      from ext Inr m1 m2 r1 r2 f1 f2 show ?thesis
        by (simp add: Valid_loop_Cons Let_def)
    qed
  qed
next
  case (5 rt r fd v rule)
  show ?case
  proof (cases "\<exists>xs. v = VList xs \<and> checkRepeated fd xs rule = None")
    case True
    then obtain xs where "v = VList xs" "checkRepeated fd xs rule = None" by blast
    with "5.hyps"[OF this "5.prems"] show ?thesis by (simp add: validRepeated.simps)
  next
    case False
    then show ?thesis by (auto simp: validRepeated.simps split: Value.splits option.splits)
  qed
next
  case (6 rt r fd rule)
  then show ?case by simp
next
  case (7 rt r fd item items rule)
  note ok = "7.prems"
  note pF = cache_ok_preserved(8)
  note a = "7.hyps"(1)[OF ok(1) ok(2)]
  note b = "7.hyps"(2)[OF prod.collapse _ refl pF[OF ok(1)] pF[OF ok(2), of fd item rule]]
  from a b show ?case by (simp add: validRepeated_loop_Cons)
next
  case (8 rt r fd v rule)
  show ?case
  proof (cases "\<exists>es. v = VMap es")
    case True
    then obtain es where "v = VMap es" by blast
    with "8.hyps"[OF this "8.prems"] show ?thesis by (simp add: validMap.simps)
  next
    case False
    then show ?thesis by (auto simp: validMap.simps split: Value.splits)
  qed
next
  case (9 rt r fd rule)
  then show ?case by simp
next
  case (10 rt r fd key item entries rule)
  note ok = "10.prems"
  show ?case
  proof (cases "MapEntry fd")
    case None
    with "10.hyps"(1)[OF _ _ ok(1) ok(2)] show ?thesis by (simp add: validMap_loop_Cons)
  next
    case (Some kv)
    obtain kt vt where kv: "kv = (kt, vt)" by (cases kv)
    note pF = cache_ok_preserved(8)
    note a = "10.hyps"(2)[OF Some kv[symmetric] ok(1) ok(2)]
    note b = "10.hyps"(3)[OF Some kv[symmetric] prod.collapse _ refl pF[OF ok(1)]
        pF[OF ok(2), of kt key rule]]
    note c = "10.hyps"(4)[OF Some kv[symmetric] prod.collapse _ refl prod.collapse _ refl
        pF[OF pF[OF ok(1)]] pF[OF pF[OF ok(2), of kt key rule], of vt item None]]
    from Some kv a b c show ?thesis by (simp add: validMap_loop_Cons)
  qed
next
  case (11 rt r fd v rule)
  note ok = "11.prems"
  show ?case
  proof (cases "v \<noteq> VNil \<and> GetType fd = TYPE_MESSAGE")
    case True
    with "11.hyps"[OF _ _ ok] show ?thesis by (simp add: validField_eq)
  next
    case False
    with checkString_indep[OF ok] show ?thesis
      by (auto simp: validField_eq split: Value.splits)
  qed
next
  case (12 rt r fd v rule)
  show ?case
  proof (cases "\<exists>m. v = VMessage m")
    case True
    then obtain m where "v = VMessage m" by blast
    with "12.hyps"[OF this "12.prems"] show ?thesis by (simp add: checkMessage.simps)
  next
    case False
    then show ?thesis by (auto simp: checkMessage.simps split: Value.splits)
  qed
qed

lemma cache_ok_empty: "cache_ok rt Map.empty"
  by (simp add: cache_ok_def)

lemma cache_ok_reset: "cache_ok rt (reset r)"
  by (simp add: cache_ok_def reset_def)

lemma first_failure_append:
  "first_failure (xs @ ys) = (if first_failure xs = Return None then first_failure ys else first_failure xs)"
  by (induction xs) auto



lemma validRepeated_loop_first_failure:
  "cache_ok rt r \<Longrightarrow>
     fst (validRepeated_loop rt r fd items rule) =
       first_failure (map (\<lambda>item. fst (validField rt r fd item rule)) items)"
proof (induction items arbitrary: r)
  case Nil
  then show ?case by simp
next
  case (Cons item items)
  let ?r' = "snd (validField rt r fd item rule)"
  have ok': "cache_ok rt ?r'" using Cons.prems by (rule cache_ok_preserved(8))
  have "fst (validRepeated_loop rt ?r' fd items rule) =
      first_failure (map (\<lambda>item. fst (validField rt ?r' fd item rule)) items)"
    using ok' by (rule Cons.IH)
  also have "\<dots> = first_failure (map (\<lambda>item. fst (validField rt r fd item rule)) items)"
    using cache_indep(8)[OF Cons.prems ok'] by simp
  finally show ?case by (simp add: validRepeated_loop_Cons)
qed

lemma validMap_loop_first_failure:
  assumes "MapEntry fd = Some (kt, vt)"
  shows "cache_ok rt r \<Longrightarrow>
     fst (validMap_loop rt r fd entries rule) =
       first_failure (concat (map (\<lambda>(key, item).
          [fst (validField rt r kt key rule), fst (validField rt r vt item None)]) entries))"
proof (induction entries arbitrary: r)
  case Nil
  then show ?case by simp
next
  case (Cons e entries)
  obtain key item where e: "e = (key, item)" by (cases e)
  let ?r1 = "snd (validField rt r kt key rule)"
  let ?r2 = "snd (validField rt ?r1 vt item None)"
  have ok1: "cache_ok rt ?r1" using Cons.prems by (rule cache_ok_preserved(8))
  have ok2: "cache_ok rt ?r2" using ok1 by (rule cache_ok_preserved(8))
  have item: "fst (validField rt ?r1 vt item None) = fst (validField rt r vt item None)"
    using cache_indep(8)[OF Cons.prems ok1] .
  have "fst (validMap_loop rt ?r2 fd entries rule) =
      first_failure (concat (map (\<lambda>(key, item).
          [fst (validField rt ?r2 kt key rule), fst (validField rt ?r2 vt item None)]) entries))"
    using ok2 by (rule Cons.IH)
  also have "\<dots> = first_failure (concat (map (\<lambda>(key, item).
          [fst (validField rt r kt key rule), fst (validField rt r vt item None)]) entries))"
    using cache_indep(8)[OF Cons.prems ok2] by simp
  finally show ?case using assms item by (simp add: e validMap_loop_Cons)
qed

subsection \<open>The switch of validField, kind by kind\<close>

lemma validField_dispatch:
  assumes "v \<noteq> VNil"
  shows "GetType fd \<in> {TYPE_INT32, TYPE_SINT32, TYPE_SFIXED32} \<Longrightarrow>
           validField rt r fd v rule =
             (case v of VInt32 x \<Rightarrow> (Return (checkInt fd (scast x) rule), r) | _ \<Rightarrow> (Panic, r))"
    and "GetType fd \<in> {TYPE_INT64, TYPE_SINT64, TYPE_SFIXED64} \<Longrightarrow>
           validField rt r fd v rule =
             (case v of VInt64 x \<Rightarrow> (Return (checkInt fd x rule), r) | _ \<Rightarrow> (Panic, r))"
    and "GetType fd \<in> {TYPE_UINT32, TYPE_FIXED32} \<Longrightarrow>
           validField rt r fd v rule =
             (case v of VUint32 x \<Rightarrow> (Return (checkInt fd (ucast x) rule), r) | _ \<Rightarrow> (Panic, r))"
    and "GetType fd \<in> {TYPE_UINT64, TYPE_FIXED64} \<Longrightarrow>
           validField rt r fd v rule =
             (case v of VUint64 x \<Rightarrow> (Return (checkInt fd x rule), r) | _ \<Rightarrow> (Panic, r))"
    and "GetType fd = TYPE_FLOAT \<Longrightarrow>
           validField rt r fd v rule =
             (case v of VFloat32 x \<Rightarrow> (Return (checkFloat rt fd x rule), r) | _ \<Rightarrow> (Panic, r))"
    and "GetType fd = TYPE_DOUBLE \<Longrightarrow>
           validField rt r fd v rule =
             (case v of VFloat64 x \<Rightarrow> (Return (checkFloat rt fd x rule), r) | _ \<Rightarrow> (Panic, r))"
    and "GetType fd = TYPE_STRING \<Longrightarrow>
           validField rt r fd v rule =
             (case v of
                VString x \<Rightarrow> (Return (fst (checkString rt r fd x rule)), snd (checkString rt r fd x rule))
              | _ \<Rightarrow> (Panic, r))"
    and "GetType fd = TYPE_BYTES \<Longrightarrow>
           validField rt r fd v rule =
             (case v of VBytes x \<Rightarrow> (Return (checkBytes fd x rule), r) | _ \<Rightarrow> (Panic, r))"
    and "GetType fd = TYPE_ENUM \<Longrightarrow>
           validField rt r fd v rule =
             (case v of VInt32 x \<Rightarrow> (Return (checkEnum fd x rule), r) | _ \<Rightarrow> (Panic, r))"
    and "GetType fd \<in> {TYPE_BOOL, TYPE_GROUP} \<Longrightarrow> validField rt r fd v rule = (Return None, r)"
  using assms by (auto simp: validField_eq)

lemma kind_classes:
  obtains (message) "GetType fd = TYPE_MESSAGE"
    | (int32) "GetType fd \<in> {TYPE_INT32, TYPE_SINT32, TYPE_SFIXED32}"
    | (int64) "GetType fd \<in> {TYPE_INT64, TYPE_SINT64, TYPE_SFIXED64}"
    | (uint32) "GetType fd \<in> {TYPE_UINT32, TYPE_FIXED32}"
    | (uint64) "GetType fd \<in> {TYPE_UINT64, TYPE_FIXED64}"
    | (float) "GetType fd = TYPE_FLOAT"
    | (double) "GetType fd = TYPE_DOUBLE"
    | (string) "GetType fd = TYPE_STRING"
    | (bytes) "GetType fd = TYPE_BYTES"
    | (enum) "GetType fd = TYPE_ENUM"
    | (other) "GetType fd \<in> {TYPE_BOOL, TYPE_GROUP}"
  by (cases "GetType fd") auto

lemma checkString_no_rule: "checkString rt r fd s None = (None, r)"
  by (simp add: checkString_def)

lemma no_rule_no_violation:
  assumes "GetType fd \<noteq> TYPE_MESSAGE"
  shows "\<not> is_violation (validField rt r fd v None)"
proof (cases "v = VNil")
  case True
  then show ?thesis by (simp add: validField_eq is_violation_def)
next
  case False
  note d = validField_dispatch [OF False, of fd rt r None]
  show ?thesis
  proof (cases fd rule: kind_classes)
    case message
    with assms show ?thesis by simp
  next
    case int32
    show ?thesis unfolding d(1) [OF int32]
      by (cases v) (simp_all add: is_violation_def checkInt_def)
  next
    case int64
    show ?thesis unfolding d(2) [OF int64]
      by (cases v) (simp_all add: is_violation_def checkInt_def)
  next
    case uint32
    show ?thesis unfolding d(3) [OF uint32]
      by (cases v) (simp_all add: is_violation_def checkInt_def)
  next
    case uint64
    show ?thesis unfolding d(4) [OF uint64]
      by (cases v) (simp_all add: is_violation_def checkInt_def)
  next
    case float
    show ?thesis unfolding d(5) [OF float]
      by (cases v) (simp_all add: is_violation_def checkFloat_def)
  next
    case double
    show ?thesis unfolding d(6) [OF double]
      by (cases v) (simp_all add: is_violation_def checkFloat_def)
  next
    case string
    show ?thesis unfolding d(7) [OF string]
      by (cases v) (simp_all add: is_violation_def checkString_no_rule)
  next
    case bytes
    show ?thesis unfolding d(8) [OF bytes]
      by (cases v) (simp_all add: is_violation_def checkBytes_def)
  next
    case enum
    show ?thesis unfolding d(9) [OF enum]
      by (cases v) (simp_all add: is_violation_def checkEnum_def)
  next
    case other
    show ?thesis unfolding d(10) [OF other] by (simp add: is_violation_def)
  qed
qed

lemma validField_message:
  "GetType fd = TYPE_MESSAGE \<Longrightarrow>
     validField rt r fd (VMessage subMsg) rule
       = (Return (fst (ValidMsg rt r subMsg)), snd (ValidMsg rt r subMsg))"
  by (simp add: validField_eq checkMessage.simps)

subsection \<open>Machine integers\<close>

lemma sint_high_half: "2 ^ 63 \<le> uint (x :: 64 word) \<Longrightarrow> sint x < 0"
proof -
  assume h: "2 ^ 63 \<le> uint x"
  have "sint x \<le> uint x - 2 ^ Suc 63"
    unfolding sint_uint using signed_take_bit_int_less_eq [OF h] by simp
  moreover have "uint x < 2 ^ 64" using uint_lt2p [of x] by simp
  ultimately show ?thesis by simp
qed

lemma sint_low_half: "uint (x :: 64 word) < 2 ^ 63 \<Longrightarrow> sint x = uint x"
  unfolding sint_uint by (rule signed_take_bit_int_eq_self) (simp_all, rule order_trans [of _ 0], simp_all)

lemma sint_scast_32_64: "sint (scast (a :: 32 word) :: 64 word) = sint a"
  by (rule sint_up_scast) (simp add: is_up)

lemma sint_ucast_32_64: "sint (ucast (c :: 32 word) :: 64 word) = uint c"
proof -
  have "uint (ucast c :: 64 word) = uint c" by (rule uint_up_ucast) (simp add: is_up)
  moreover have "uint c < 2 ^ 32" using uint_lt2p [of c] by simp
  then have "uint c < 2 ^ 63" by (rule less_trans) simp
  ultimately show ?thesis using sint_low_half [of "ucast c"] by simp
qed

lemma sint_of_nat_64: "n < 2 ^ 63 \<Longrightarrow> sint (of_nat n :: 64 word) = int n"
proof -
  assume h: "n < 2 ^ 63"
  then have "int n < 2 ^ 63" by (metis of_nat_less_iff of_nat_numeral of_nat_power)
  then have "signed_take_bit 63 (int n) = int n"
    by (intro signed_take_bit_int_eq_self) (auto intro: order_trans [of _ 0])
  then show ?thesis by (simp add: signed_of_nat)
qed

lemma checkInt_fails_iff:
  "(checkInt fd x (Some rule) \<noteq> None) \<longleftrightarrow>
     (IntGt rule \<noteq> None \<and> sint x \<le> sint (the (IntGt rule)))
   \<or> (IntLt rule \<noteq> None \<and> sint x \<ge> sint (the (IntLt rule)))"
  by (auto simp: checkInt_def)

lemma is_violation_Return: "is_violation (Return e, r) = (e \<noteq> None)"
  by (cases e) (simp_all add: is_violation_def)

lemma is_violation_Panic: "is_violation (Panic, r) = False"
  by (simp add: is_violation_def)

section \<open>The claims\<close>

subsection \<open>C1: a value whose shape does not match its kind\<close>





subsection \<open>C2: integer fields\<close>

text \<open>
  For the signed kinds, the 32-bit unsigned kinds and the 64-bit unsigned values below
  \<open>2^63\<close>, the number compared is the field's number \<open>n\<close>, and the field fails exactly when
  \<open>n \<le> int-gt\<close> or \<open>n \<ge> int-lt\<close> for a bound that is set.
\<close>

lemma int_field_fails_iff:
  assumes "(GetType fd \<in> {TYPE_INT32, TYPE_SINT32, TYPE_SFIXED32} \<and> v = VInt32 a \<and> n = sint a)
         \<or> (GetType fd \<in> {TYPE_INT64, TYPE_SINT64, TYPE_SFIXED64} \<and> v = VInt64 b \<and> n = sint b)
         \<or> (GetType fd \<in> {TYPE_UINT32, TYPE_FIXED32} \<and> v = VUint32 c \<and> n = uint c)
         \<or> (GetType fd \<in> {TYPE_UINT64, TYPE_FIXED64} \<and> v = VUint64 d \<and> n = uint d \<and> uint d < 2 ^ 63)"
  shows "is_violation (validField rt r fd v (Some rule)) \<longleftrightarrow>
           (IntGt rule \<noteq> None \<and> n \<le> sint (the (IntGt rule)))
         \<or> (IntLt rule \<noteq> None \<and> n \<ge> sint (the (IntLt rule)))"
  using assms
  by (elim disjE conjE)
     (auto simp: validField_eq is_violation_Return checkInt_fails_iff sint_scast_32_64
        sint_ucast_32_64 sint_low_half simp del: not_None_eq)

text \<open>
  C2. The claim extends the equivalence to uint64 values at or above \<open>2^63\<close>, and there the
  code does otherwise: \<^verbatim>\<open>int64(value.(uint64))\<close> reads such a value as a negative number, so
  the field fails every int-gt bound that is not negative, although its value is greater than
  the bound.
\<close>

theorem uint64_high_half_fails_int_gt:
  "GetType fd \<in> {TYPE_UINT64, TYPE_FIXED64} \<Longrightarrow> IntGt rule = Some g \<Longrightarrow> 0 \<le> sint g
   \<Longrightarrow> 2 ^ 63 \<le> uint x
   \<Longrightarrow> sint g < uint x \<and>
       fst (validField rt r fd (VUint64 x) (Some rule))
         = Return (Some (ValidFail fd ''IntGt'' (VInt64 g) (VInt64 x)))"
proof -
  assume k: "GetType fd \<in> {TYPE_UINT64, TYPE_FIXED64}" and g: "IntGt rule = Some g"
    and g0: "0 \<le> sint g" and x: "2 ^ 63 \<le> uint x"
  have neg: "sint x < 0" using x by (rule sint_high_half)
  have "sint g < 2 ^ 63" using sint_less [of g] by simp
  with x have above: "sint g < uint x" by linarith
  from k have "validField rt r fd (VUint64 x) (Some rule) = (Return (checkInt fd x (Some rule)), r)"
    by (auto simp: validField_eq)
  moreover have "checkInt fd x (Some rule) = Some (ValidFail fd ''IntGt'' (VInt64 g) (VInt64 x))"
    using g g0 neg by (simp add: checkInt_def)
  ultimately show ?thesis using above by simp
qed

theorem uint64_high_half_fails_int_gt_witness:
  "GetType c2_counter \<in> {TYPE_UINT64, TYPE_FIXED64}
   \<and> getRule c2_counter = Some (no_constraints\<lparr>IntGt := Some 0\<rparr>)
   \<and> (0 :: int) \<le> sint (0 :: int64)
   \<and> (2 :: int) ^ 63 \<le> uint (9223372036854775808 :: uint64)
   \<and> sint (0 :: int64) < uint (9223372036854775808 :: uint64)
   \<and> fst (validField sample_runtime Map.empty c2_counter (VUint64 9223372036854775808)
        (getRule c2_counter))
       = Return (Some (ValidFail c2_counter ''IntGt'' (VInt64 0) (VInt64 9223372036854775808)))"
proof -
  have k: "GetType c2_counter \<in> {TYPE_UINT64, TYPE_FIXED64}"
    by (simp add: c2_counter_def singular_def)
  have g: "getRule c2_counter = Some (no_constraints\<lparr>IntGt := Some 0\<rparr>)"
    by (simp add: c2_counter_def singular_def with_rule_def getRule_def)
  have i: "IntGt (no_constraints\<lparr>IntGt := Some 0\<rparr>) = Some 0" by simp
  have z: "(0 :: int) \<le> sint (0 :: int64)" by simp
  have x: "(2 :: int) ^ 63 \<le> uint (9223372036854775808 :: uint64)" by simp
  show ?thesis
    using k g z x uint64_high_half_fails_int_gt [OF k i z x, of sample_runtime Map.empty]
    by simp
qed

subsection \<open>C3: validating twice\<close>





subsection \<open>C4: repeated fields\<close>

lemma checkRepeated_eq:
  assumes "length vList < 2 ^ 63"
  shows "checkRepeated fd vList (Some rule) =
     (if RepeatedCountMin rule \<noteq> None \<and> int (length vList) < sint (the (RepeatedCountMin rule))
      then Some (ValidFail fd ''RepeatedCountMin'' (VInt64 (the (RepeatedCountMin rule)))
                  (VInt64 (of_nat (length vList))))
      else if RepeatedCountMax rule \<noteq> None \<and> sint (the (RepeatedCountMax rule)) < int (length vList)
      then Some (ValidFail fd ''RepeatedCountMax'' (VInt64 (the (RepeatedCountMax rule)))
                  (VInt64 (of_nat (length vList))))
      else None)"
  by (simp add: checkRepeated_def Let_def sint_of_nat_64 [OF assms] not_le not_less
      del: not_None_eq split del: if_split cong: if_cong)

text \<open>
  C4. For a repeated field with an attached rule (and a list shorter than \<open>2^63\<close>, as every Go
  slice is), the element count is checked first, against repeated-count-min and then
  repeated-count-max, both inclusive; a count outside the bounds is returned at once as the
  error named \<^verbatim>\<open>RepeatedCountMin\<close> or \<^verbatim>\<open>RepeatedCountMax\<close>, whatever the elements are.
  Only when both bounds hold are the elements checked, each against the same rule, in list
  order, and the result is the first outcome that is not a pass.
\<close>

theorem validRepeated_count_before_items:
  assumes ok: "cache_ok rt r" and len: "length vList < 2 ^ 63"
  shows "fst (validRepeated rt r fd (VList vList) (Some rule)) =
     (if RepeatedCountMin rule \<noteq> None \<and> int (length vList) < sint (the (RepeatedCountMin rule))
      then Return (Some (ValidFail fd ''RepeatedCountMin'' (VInt64 (the (RepeatedCountMin rule)))
                  (VInt64 (of_nat (length vList)))))
      else if RepeatedCountMax rule \<noteq> None \<and> sint (the (RepeatedCountMax rule)) < int (length vList)
      then Return (Some (ValidFail fd ''RepeatedCountMax'' (VInt64 (the (RepeatedCountMax rule)))
                  (VInt64 (of_nat (length vList)))))
      else first_failure (map (\<lambda>item. fst (validField rt r fd item (Some rule))) vList))"
  by (simp add: validRepeated.simps checkRepeated_eq [OF len]
      validRepeated_loop_first_failure [OF ok] del: not_None_eq)

theorem validRepeated_count_before_items_witness:
  "cache_ok sample_runtime Map.empty
   \<and> getRule c4_tags = Some c4_rule
   \<and> length ([] :: Value list) < 2 ^ 63
   \<and> fst (validRepeated sample_runtime Map.empty c4_tags (VList []) (Some c4_rule))
       = Return (Some (ValidFail c4_tags ''RepeatedCountMin'' (VInt64 1) (VInt64 0)))
   \<and> length [VInt32 0, VString ''abcde'', VString ''c'', VString ''d''] < 2 ^ 63
   \<and> fst (validRepeated sample_runtime Map.empty c4_tags
          (VList [VInt32 0, VString ''abcde'', VString ''c'', VString ''d'']) (Some c4_rule))
       = Return (Some (ValidFail c4_tags ''RepeatedCountMax'' (VInt64 3) (VInt64 4)))
   \<and> length [VString ''ab'', VString ''abcd'', VString ''abcde''] < 2 ^ 63
   \<and> fst (validRepeated sample_runtime Map.empty c4_tags
          (VList [VString ''ab'', VString ''abcd'', VString ''abcde'']) (Some c4_rule))
       = Return (Some (ValidFail c4_tags ''LengthLt'' (VInt64 4) (VInt64 4)))
   \<and> length [VString ''ab'', VString ''abc''] < 2 ^ 63
   \<and> fst (validRepeated sample_runtime Map.empty c4_tags
          (VList [VString ''ab'', VString ''abc'']) (Some c4_rule))
       = Return None"
proof -
  have ok: "cache_ok sample_runtime Map.empty" by (rule cache_ok_empty)
  have g: "getRule c4_tags = Some c4_rule"
    by (simp add: c4_tags_def with_rule_def getRule_def)
  have l0: "length ([] :: Value list) < 2 ^ 63" by simp
  have l4: "length [VInt32 0, VString ''abcde'', VString ''c'', VString ''d''] < 2 ^ 63" by simp
  have l3: "length [VString ''ab'', VString ''abcd'', VString ''abcde''] < 2 ^ 63" by simp
  have l2: "length [VString ''ab'', VString ''abc''] < 2 ^ 63" by simp
  have item: "fst (validField sample_runtime Map.empty c4_tags (VString s) (Some c4_rule))
      = (if length s < 4 then Return None
         else Return (Some (ValidFail c4_tags ''LengthLt'' (VInt64 4) (VInt64 (of_nat (length s))))))"
    if "length s < 2 ^ 63" for s
    using sint_of_nat_64 [OF that]
    by (simp add: validField_eq checkString_def Let_def c4_tags_def c4_rule_def no_constraints_def)
  have a: "fst (validRepeated sample_runtime Map.empty c4_tags (VList []) (Some c4_rule))
      = Return (Some (ValidFail c4_tags ''RepeatedCountMin'' (VInt64 1) (VInt64 0)))"
    using validRepeated_count_before_items [OF ok l0, of c4_tags c4_rule]
    by (simp add: c4_rule_def)
  have b: "fst (validRepeated sample_runtime Map.empty c4_tags
          (VList [VInt32 0, VString ''abcde'', VString ''c'', VString ''d'']) (Some c4_rule))
      = Return (Some (ValidFail c4_tags ''RepeatedCountMax'' (VInt64 3) (VInt64 4)))"
    using validRepeated_count_before_items [OF ok l4, of c4_tags c4_rule]
    by (simp add: c4_rule_def)
  have c: "fst (validRepeated sample_runtime Map.empty c4_tags
          (VList [VString ''ab'', VString ''abcd'', VString ''abcde'']) (Some c4_rule))
      = Return (Some (ValidFail c4_tags ''LengthLt'' (VInt64 4) (VInt64 4)))"
    using validRepeated_count_before_items [OF ok l3, of c4_tags c4_rule]
    by (simp add: item) (simp add: c4_rule_def)
  have d: "fst (validRepeated sample_runtime Map.empty c4_tags
          (VList [VString ''ab'', VString ''abc'']) (Some c4_rule))
      = Return None"
    using validRepeated_count_before_items [OF ok l2, of c4_tags c4_rule]
    by (simp add: item) (simp add: c4_rule_def)
  from ok g l0 a l4 b l3 c l2 d show ?thesis by blast
qed

subsection \<open>C5: map fields\<close>

text \<open>
  C5. For a map field, every entry's key is checked with the key's descriptor against the
  field's rule and every entry's value with the value's descriptor against no rule, entry by
  entry in the order of iteration, and the first outcome that is not a pass is the result.
  Checked against no rule, a value of a kind other than message never yields an error; a
  message-typed value, like a message-typed key, is validated recursively.
\<close>

theorem validMap_checks_keys_only:
  assumes ok: "cache_ok rt r" and entry: "MapEntry fd = Some (kt, vt)"
  shows "fst (validMap rt r fd (VMap vList) rule)
           = first_failure (concat (map (\<lambda>(key, item).
               [fst (validField rt r kt key rule), fst (validField rt r vt item None)]) vList))
         \<and> (GetType vt \<noteq> TYPE_MESSAGE \<longrightarrow> \<not> is_violation (validField rt r vt item None))
         \<and> (GetType vt = TYPE_MESSAGE \<longrightarrow>
              fst (validField rt r vt (VMessage subMsg) None) = Return (fst (ValidMsg rt r subMsg)))
         \<and> (GetType kt = TYPE_MESSAGE \<longrightarrow>
              fst (validField rt r kt (VMessage subMsg) rule) = Return (fst (ValidMsg rt r subMsg)))"
  using validMap_loop_first_failure [OF entry ok, of vList rule] no_rule_no_violation [of vt rt r item]
    validField_message [of vt rt r subMsg None] validField_message [of kt rt r subMsg rule]
  by (simp add: validMap.simps)

theorem validMap_checks_keys_only_witness:
  "cache_ok sample_runtime Map.empty
   \<and> MapEntry c3_labels = Some (c3_key, c3_val)
   \<and> getRule c3_labels = Some (no_constraints\<lparr>LengthLt := Some 3\<rparr>)
   \<and> fst (validMap sample_runtime Map.empty c3_labels
          (VMap [(VString ''ab'', VString ''a long value''), (VString ''abcd'', VString ''x'')])
          (getRule c3_labels))
       = Return (Some (ValidFail c3_key ''LengthLt'' (VInt64 3) (VInt64 4)))
   \<and> GetType c3_val \<noteq> TYPE_MESSAGE
   \<and> \<not> is_violation (validField sample_runtime Map.empty c3_val (VString ''a long value'') None)"
proof -
  have ok: "cache_ok sample_runtime Map.empty" by (rule cache_ok_empty)
  have e: "MapEntry c3_labels = Some (c3_key, c3_val)" by (simp add: c3_labels_def)
  have g: "getRule c3_labels = Some (no_constraints\<lparr>LengthLt := Some 3\<rparr>)"
    by (simp add: c3_labels_def with_rule_def getRule_def)
  have k: "GetType c3_val \<noteq> TYPE_MESSAGE" by (simp add: c3_val_def singular_def)
  have key: "fst (validField sample_runtime Map.empty c3_key (VString s)
        (Some (no_constraints\<lparr>LengthLt := Some 3\<rparr>)))
      = (if length s < 3 then Return None
         else Return (Some (ValidFail c3_key ''LengthLt'' (VInt64 3) (VInt64 (of_nat (length s))))))"
    if "length s < 2 ^ 63" for s
    using sint_of_nat_64 [OF that]
    by (simp add: validField_eq checkString_def Let_def c3_key_def singular_def no_constraints_def)
  have val: "fst (validField sample_runtime Map.empty c3_val (VString s) None) = Return None" for s
    by (simp add: validField_eq checkString_def c3_val_def singular_def)
  note th = validMap_checks_keys_only [OF ok e,
      of "[(VString ''ab'', VString ''a long value''), (VString ''abcd'', VString ''x'')]"
         "getRule c3_labels" "VString ''a long value''"]
  have a: "fst (validMap sample_runtime Map.empty c3_labels
          (VMap [(VString ''ab'', VString ''a long value''), (VString ''abcd'', VString ''x'')])
          (getRule c3_labels))
       = Return (Some (ValidFail c3_key ''LengthLt'' (VInt64 3) (VInt64 4)))"
    using th by (simp add: g key val)
  have b: "\<not> is_violation (validField sample_runtime Map.empty c3_val (VString ''a long value'') None)"
    using th k by blast
  from ok e g a k b show ?thesis by blast
qed

subsection \<open>C6: floating-point fields\<close>









subsection \<open>C7: message-typed fields\<close>



subsection \<open>C8: patterns that do not compile\<close>

lemma Get_compile_error:
  "cache_ok rt r \<Longrightarrow> regexp_Compile rt expr = Inl err \<Longrightarrow> Get rt r expr = (Inl err, r)"
  by (cases "r expr") (auto simp: cache_ok_def Get_def)

lemma checkString_compile_error:
  assumes "cache_ok rt r" and "Regex rule = Some expr" and "regexp_Compile rt expr = Inl err"
  shows "checkString rt r fd s (Some rule) = checkString rt r fd s (Some (rule\<lparr>Regex := None\<rparr>))"
  using assms(2) Get_compile_error [OF assms(1,3)]
  by (simp add: checkString_def Let_def split del: if_split cong: if_cong)

lemma checkString_no_regex_cache:
  "Regex rule = None \<Longrightarrow> snd (checkString rt r fd s (Some rule)) = r"
  by (simp add: checkString_def Let_def)

text \<open>
  C8. For a string field whose rule has a pattern that \<^verbatim>\<open>regexp.Compile\<close> rejects, the
  check is the check under the same rule without the pattern: the other constraints decide,
  the call does not panic, nothing is cached, and when they hold the loop over the message's
  fields goes on to the remaining fields as if the field were not there.
\<close>

theorem regex_compile_failure_ignored:
  assumes ok: "cache_ok rt r" and kind: "GetType fd = TYPE_STRING"
    and re: "Regex rule = Some expr" and err: "regexp_Compile rt expr = Inl e"
  shows "validField rt r fd (VString s) (Some rule)
           = validField rt r fd (VString s) (Some (rule\<lparr>Regex := None\<rparr>))
         \<and> fst (validField rt r fd (VString s) (Some rule)) \<noteq> Panic
         \<and> snd (validField rt r fd (VString s) (Some rule)) = r
         \<and> (\<not> IsExtension fd \<and> \<not> IsMap fd \<and> \<not> IsRepeated fd \<and> getRule fd = Some rule
              \<and> fst (validField rt r fd (VString s) (Some (rule\<lparr>Regex := None\<rparr>))) = Return None
            \<longrightarrow> Valid_loop rt r ((fd, Inr (VString s)) # rest) = Valid_loop rt r rest)"
proof -
  have eq: "validField rt r fd (VString s) (Some rule)
      = validField rt r fd (VString s) (Some (rule\<lparr>Regex := None\<rparr>))"
    using kind checkString_compile_error [OF ok re err] by (simp add: validField_eq)
  have np: "fst (validField rt r fd (VString s) (Some rule)) \<noteq> Panic"
    using kind by (simp add: validField_eq)
  have c: "snd (validField rt r fd (VString s) (Some rule)) = r"
    unfolding eq using kind checkString_no_regex_cache [of "rule\<lparr>Regex := None\<rparr>"]
    by (simp add: validField_eq)
  have "Valid_loop rt r ((fd, Inr (VString s)) # rest) = Valid_loop rt r rest"
    if "\<not> IsExtension fd" "\<not> IsMap fd" "\<not> IsRepeated fd" "getRule fd = Some rule"
      "fst (validField rt r fd (VString s) (Some (rule\<lparr>Regex := None\<rparr>))) = Return None"
    using that c eq by (simp add: Valid_loop_Cons)
  with eq np c show ?thesis by blast
qed

theorem regex_compile_failure_ignored_witness:
  "cache_ok sample_runtime Map.empty
   \<and> GetType c8_name = TYPE_STRING
   \<and> Regex c8_rule = Some ''(''
   \<and> regexp_Compile sample_runtime ''('' = Inl ''error parsing regexp''
   \<and> getRule c8_name = Some c8_rule
   \<and> validField sample_runtime Map.empty c8_name (VString ''Ada'') (Some c8_rule)
       = (Return None, Map.empty)
   \<and> validField sample_runtime Map.empty c8_name (VString []) (Some c8_rule)
       = (Return (Some (ValidFail c8_name ''StringNotEmpty'' (VBool True) (VString []))), Map.empty)
   \<and> fst (ValidMsg sample_runtime Map.empty (Some c8_msg))
       = Some (ValidFail c8_age ''IntGt'' (VInt64 0) (VInt64 0))"
proof -
  have ok: "cache_ok sample_runtime Map.empty" by (rule cache_ok_empty)
  have k: "GetType c8_name = TYPE_STRING" by (simp add: c8_name_def singular_def)
  have re: "Regex c8_rule = Some ''(''" by (simp add: c8_rule_def)
  have err: "regexp_Compile sample_runtime ''('' = Inl ''error parsing regexp''"
    by (simp add: sample_runtime_def sample_Compile_def)
  have g: "getRule c8_name = Some c8_rule"
    by (simp add: c8_name_def singular_def with_rule_def getRule_def)
  have flags: "\<not> IsExtension c8_name \<and> \<not> IsMap c8_name \<and> \<not> IsRepeated c8_name"
    by (simp add: c8_name_def singular_def IsMap_def)
  have plain: "validField sample_runtime Map.empty c8_name (VString ''Ada'') (Some (c8_rule\<lparr>Regex := None\<rparr>))
      = (Return None, Map.empty)"
    using k by (simp add: validField_eq checkString_def c8_rule_def no_constraints_def)
  have empty: "validField sample_runtime Map.empty c8_name (VString []) (Some (c8_rule\<lparr>Regex := None\<rparr>))
      = (Return (Some (ValidFail c8_name ''StringNotEmpty'' (VBool True) (VString []))), Map.empty)"
    using k by (simp add: validField_eq checkString_def c8_rule_def no_constraints_def)
  note th = regex_compile_failure_ignored [OF ok k re err]
  have a: "validField sample_runtime Map.empty c8_name (VString ''Ada'') (Some c8_rule)
      = (Return None, Map.empty)"
    using th [of "''Ada''"] plain by simp
  have b: "validField sample_runtime Map.empty c8_name (VString []) (Some c8_rule)
      = (Return (Some (ValidFail c8_name ''StringNotEmpty'' (VBool True) (VString []))), Map.empty)"
    using th [of "[]"] empty by simp
  have skip: "Valid_loop sample_runtime Map.empty [(c8_name, Inr (VString ''Ada'')), (c8_age, Inr (VInt32 0))]
      = Valid_loop sample_runtime Map.empty [(c8_age, Inr (VInt32 0))]"
    using th [of "''Ada''" "[(c8_age, Inr (VInt32 0))]"] flags g plain by simp
  have age: "Valid_loop sample_runtime Map.empty [(c8_age, Inr (VInt32 0))]
      = (Return (Some (ValidFail c8_age ''IntGt'' (VInt64 0) (VInt64 0))), Map.empty)"
    by (simp add: Valid_loop_Cons validField_eq checkInt_def c8_age_def singular_def with_rule_def
        getRule_def IsMap_def no_constraints_def)
  have c: "fst (ValidMsg sample_runtime Map.empty (Some c8_msg))
      = Some (ValidFail c8_age ''IntGt'' (VInt64 0) (VInt64 0))"
    by (simp add: ValidMsg_eq Valid.simps c8_msg_def skip age)
  from ok k re err g a b c show ?thesis by simp
qed

subsection \<open>C9: what an error carries\<close>



















subsection \<open>C10: kinds without a case\<close>

text \<open>
  C10. \<^verbatim>\<open>validField\<close> on a field whose declared kind is none of those the switch has a
  case for (of the eighteen kinds these are bool and group) returns nil and leaves the
  cache alone, whatever the value and whatever rule is attached: such a field never fails.
\<close>

theorem unhandled_kind_is_valid:
  assumes kind: "GetType fd \<notin> {TYPE_MESSAGE, TYPE_INT32, TYPE_SINT32, TYPE_SFIXED32, TYPE_INT64,
      TYPE_SINT64, TYPE_SFIXED64, TYPE_UINT32, TYPE_FIXED32, TYPE_UINT64, TYPE_FIXED64,
      TYPE_FLOAT, TYPE_DOUBLE, TYPE_STRING, TYPE_BYTES, TYPE_ENUM}"
  shows "GetType fd \<in> {TYPE_BOOL, TYPE_GROUP}
         \<and> validField rt r fd v rule = (Return None, r)
         \<and> \<not> is_violation (validField rt r fd v rule)"
proof -
  from kind have other: "GetType fd \<in> {TYPE_BOOL, TYPE_GROUP}"
    by (cases "GetType fd") simp_all
  have res: "validField rt r fd v rule = (Return None, r)"
  proof (cases "v = VNil")
    case True
    then show ?thesis by (simp add: validField_eq)
  next
    case False
    from validField_dispatch(10) [OF False other] show ?thesis .
  qed
  then have "\<not> is_violation (validField rt r fd v rule)"
    by (simp add: is_violation_def)
  with other res show ?thesis by simp
qed

theorem unhandled_kind_is_valid_witness:
  "GetType c10_flag \<notin> {TYPE_MESSAGE, TYPE_INT32, TYPE_SINT32, TYPE_SFIXED32, TYPE_INT64,
      TYPE_SINT64, TYPE_SFIXED64, TYPE_UINT32, TYPE_FIXED32, TYPE_UINT64, TYPE_FIXED64,
      TYPE_FLOAT, TYPE_DOUBLE, TYPE_STRING, TYPE_BYTES, TYPE_ENUM}
   \<and> getRule c10_flag = Some (no_constraints\<lparr>IntGt := Some 5\<rparr>)
   \<and> validField sample_runtime Map.empty c10_flag (VString ''x'') (getRule c10_flag)
       = (Return None, Map.empty)
   \<and> validField sample_runtime Map.empty c10_flag (VBool False) (getRule c10_flag)
       = (Return None, Map.empty)"
proof -
  have k: "GetType c10_flag \<notin> {TYPE_MESSAGE, TYPE_INT32, TYPE_SINT32, TYPE_SFIXED32, TYPE_INT64,
      TYPE_SINT64, TYPE_SFIXED64, TYPE_UINT32, TYPE_FIXED32, TYPE_UINT64, TYPE_FIXED64,
      TYPE_FLOAT, TYPE_DOUBLE, TYPE_STRING, TYPE_BYTES, TYPE_ENUM}"
    by (simp add: c10_flag_def singular_def)
  have g: "getRule c10_flag = Some (no_constraints\<lparr>IntGt := Some 5\<rparr>)"
    by (simp add: c10_flag_def singular_def with_rule_def getRule_def)
  show ?thesis
    using k g unhandled_kind_is_valid [OF k, of sample_runtime Map.empty "VString ''x''" "getRule c10_flag"]
      unhandled_kind_is_valid [OF k, of sample_runtime Map.empty "VBool False" "getRule c10_flag"]
    by simp
qed

end
